theory Spec2Isabelle
  imports Complex_Main "HOL-Library.Word" "HOL-Library.Sublist"
begin

section \<open>The world the service acts on\<close>

text \<open>
  The service of \<^verbatim>\<open>index.js\<close> only has effects: it answers an HTTP request, drives a
  browser, writes and deletes a file, and talks to a storage bucket and a database table.
  The model threads one \<open>state\<close> record through the code. Every call to a collaborator and
  every console line is appended to \<open>trace\<close>, in program order; what a collaborator answers
  is read from an \<open>env\<close> record, so that each failure the code can see is an input.
\<close>

type_synonym byte = "8 word"
type_synonym buffer = "byte list"
type_synonym path = string

datatype level = Info | Warn | Err

datatype call =
    Fetch string
  | Launch
  | NewPage
  | SetViewport nat nat
  | Goto string
  | WaitForFunction string
  | WaitForTimeout nat
  | Screenshot path
  | StatSync path
  | Close
  | SharpFile path nat nat
  | SharpBuffer nat nat
  | StorageRemove string
  | StorageUpload string
  | DbUpdate string
  | ExistsSync path
  | UnlinkSync path

datatype event =
    Call call
  | Console level string
  | Respond nat "(string \<times> string) list"

datatype publish_step = Upload | RecordUpdate

datatype error =
    BrowserLaunchError
  | SessionError
  | NavigationError
  | CaptureError
  | FileSystemError
  | CloseError
  | ImageProcessingError
  | PublishError publish_step

datatype fetch_result = Response nat | FetchThrows

datatype shot_result = ShotSaved buffer | ShotFailed "buffer option"

datatype remove_result = RemoveDone | RemoveErrorReturned | RemoveThrows

record project =
  screenshot :: string
  updated_at :: nat

record state =
  files :: "path \<rightharpoonup> buffer"
  bucket :: "string \<rightharpoonup> buffer"
  projects :: "string \<rightharpoonup> project"
  browsers :: nat
  filepath :: "path option"
  trace :: "event list"

record env =
  clock_health :: nat
  clock_goto :: nat
  clock_file :: nat
  clock_upload :: nat
  clock_updated :: nat
  fetch_result :: fetch_result
  launch_ok :: bool
  newPage_ok :: bool
  setViewport_ok :: bool
  goto_ok :: bool
  indicator_gone :: "string \<Rightarrow> bool"
  waitForTimeout_ok :: bool
  screenshot_result :: shot_result
  close_ok :: bool
  encode1 :: "buffer \<Rightarrow> buffer option"
  encode2 :: "buffer \<Rightarrow> buffer option"
  remove_result :: remove_result
  upload_ok :: bool
  getPublicUrl :: "string \<Rightarrow> string"
  update_ok :: bool
  unlink_ok :: bool

text \<open>
  In \<open>state\<close>, \<open>files\<close> is the screenshots directory, \<open>bucket\<close> the storage bucket
  \<^verbatim>\<open>projects\<close>, \<open>projects\<close> the table of that name (its other columns are left out),
  \<open>browsers\<close> the number of browser processes running, and \<open>filepath\<close> the variable
  \<^verbatim>\<open>let filepath\<close> of \<^verbatim>\<open>processScreenshotAsync\<close>, which its \<^verbatim>\<open>catch\<close> block reads.

  In \<open>env\<close>, the \<open>clock\<close> fields are the readings of \<^verbatim>\<open>Date.now()\<close> at lines 169, 218, 252
  and 97 and of \<^verbatim>\<open>new Date()\<close> at line 107; \<open>fetch_result\<close> is the answer of the probe; the
  \<open>ok\<close> fields say whether the call of that name resolves or throws; \<open>encode1\<close> and
  \<open>encode2\<close> are the two \<^verbatim>\<open>sharp\<close> encoders (\<open>None\<close> when the encoder throws);
  \<open>getPublicUrl\<close> is the storage client's function of that name.
\<close>

definition emit :: "event \<Rightarrow> state \<Rightarrow> state" where
  "emit e s = s\<lparr>trace := trace s @ [e]\<rparr>"

definition console :: "level \<Rightarrow> string \<Rightarrow> state \<Rightarrow> state" where
  "console l msg s = emit (Console l msg) s"

text \<open>The events a run adds to the trace it started from.\<close>

definition new_events :: "state \<Rightarrow> state \<Rightarrow> event list" where
  "new_events s s' = drop (length (trace s)) (trace s')"

fun is_call :: "event \<Rightarrow> bool" where
  "is_call (Call c) = True"
| "is_call (Console l m) = False"
| "is_call (Respond n b) = False"

section \<open>The adaptive compressor (index.js, lines 38 to 70)\<close>

text \<open>
  \<^verbatim>\<open>buffer.length / 1024\<close> is a JavaScript number. A buffer length is an integer far below
  \<open>2^53\<close> and 1024 is a power of two, so the quotient is exact, and the model computes it
  in the rationals.
\<close>

definition kb :: "nat \<Rightarrow> rat" where
  "kb n = of_nat n / 1024"

text \<open>
  \<open>compressImage\<close> is the first half of \<^verbatim>\<open>processAndUploadImage\<close>: \<^verbatim>\<open>sharp(imagePath)\<close> at
  quality 40 and width 800, \<^verbatim>\<open>fs.statSync(imagePath)\<close>, and the second pass at quality 20
  and width 600 when the first result is over 30 KB. Both \<^verbatim>\<open>sharp\<close> and \<^verbatim>\<open>statSync\<close> throw
  when the file is missing. The result is \<^verbatim>\<open>processedImageBuffer\<close> and \<^verbatim>\<open>compressedSize\<close>.
\<close>

definition compressImage :: "env \<Rightarrow> path \<Rightarrow> state \<Rightarrow> (error + buffer \<times> rat) \<times> state" where
  "compressImage env imagePath s =
     (let s1 = emit (Call (SharpFile imagePath 40 800)) s in
      case files s1 imagePath of
        None \<Rightarrow> (Inl ImageProcessingError, s1)
      | Some img \<Rightarrow>
         (case encode1 env img of
            None \<Rightarrow> (Inl ImageProcessingError, s1)
          | Some buf1 \<Rightarrow>
             (let s2 = emit (Call (StatSync imagePath)) s1;
                  compressedSize = kb (length buf1);
                  s3 = console Info ''Image compressed'' s2
              in if compressedSize > 30 then
                   (let s4 = emit (Call (SharpBuffer 20 600)) s3 in
                    case encode2 env buf1 of
                      None \<Rightarrow> (Inl ImageProcessingError, s4)
                    | Some buf2 \<Rightarrow>
                       (let recompressedSize = kb (length buf2);
                            s5 = console Info ''Image recompressed'' s4
                        in if recompressedSize \<le> 30
                           then (Inr (buf2, recompressedSize), s5)
                           else (Inr (buf1, compressedSize), s5)))
                 else (Inr (buf1, compressedSize), s3))))"

text \<open>
  The same function with the two size tests written on the raw byte length against
  \<open>30 * 1024\<close> bytes, as the specification words them.
\<close>

definition compressImage_bytes :: "env \<Rightarrow> path \<Rightarrow> state \<Rightarrow> (error + buffer \<times> rat) \<times> state" where
  "compressImage_bytes env imagePath s =
     (let s1 = emit (Call (SharpFile imagePath 40 800)) s in
      case files s1 imagePath of
        None \<Rightarrow> (Inl ImageProcessingError, s1)
      | Some img \<Rightarrow>
         (case encode1 env img of
            None \<Rightarrow> (Inl ImageProcessingError, s1)
          | Some buf1 \<Rightarrow>
             (let s2 = emit (Call (StatSync imagePath)) s1;
                  s3 = console Info ''Image compressed'' s2
              in if length buf1 > 30 * 1024 then
                   (let s4 = emit (Call (SharpBuffer 20 600)) s3 in
                    case encode2 env buf1 of
                      None \<Rightarrow> (Inl ImageProcessingError, s4)
                    | Some buf2 \<Rightarrow>
                       (let s5 = console Info ''Image recompressed'' s4
                        in if length buf2 \<le> 30 * 1024
                           then (Inr (buf2, kb (length buf2)), s5)
                           else (Inr (buf1, kb (length buf1)), s5)))
                 else (Inr (buf1, kb (length buf1)), s3))))"

text \<open>The payload that goes on to the upload, when the compressor returns one.\<close>

definition final_payload :: "env \<Rightarrow> path \<Rightarrow> state \<Rightarrow> buffer option" where
  "final_payload env imagePath s =
     (case fst (compressImage env imagePath s) of
        Inl e \<Rightarrow> None
      | Inr (buf, kbs) \<Rightarrow> Some buf)"

section \<open>The publisher (index.js, lines 72 to 126)\<close>

text \<open>
  \<^verbatim>\<open>Date.now()\<close> is a number of milliseconds, written in decimal inside a template string.
\<close>

definition digit :: "nat \<Rightarrow> char" where
  "digit d = ''0123456789'' ! d"

fun decimal :: "nat \<Rightarrow> string" where
  "decimal n = (if n < 10 then [digit n] else decimal (n div 10) @ [digit (n mod 10)])"

declare decimal.simps [simp del]

text \<open>
  \<open>publishImage\<close> is the second half of \<^verbatim>\<open>processAndUploadImage\<close>. The storage client
  answers \<^verbatim>\<open>remove\<close> in one of three ways, all of which the code lets pass: the object is
  removed, an error object is returned (and never read), or the call throws (and is caught).
  \<^verbatim>\<open>upload\<close> with \<^verbatim>\<open>upsert: true\<close> stores the payload at the key or returns an error;
  \<^verbatim>\<open>update(...).eq('id', projectId)\<close> rewrites the row of that project when there is one,
  or returns an error and leaves the table as it was.
\<close>

definition publishImage :: "env \<Rightarrow> string \<Rightarrow> buffer \<Rightarrow> state \<Rightarrow> (error + string) \<times> state" where
  "publishImage env projectId buf s =
     (let filePath = ''screenshots/'' @ projectId @ ''.jpg'';
          s1 = emit (Call (StorageRemove filePath)) s;
          s2 = (case remove_result env of
                  RemoveDone \<Rightarrow>
                    console Info ''Removed existing screenshot''
                      (s1\<lparr>bucket := (bucket s1)(filePath := None)\<rparr>)
                | RemoveErrorReturned \<Rightarrow> console Info ''Removed existing screenshot'' s1
                | RemoveThrows \<Rightarrow>
                    console Info ''No existing screenshot to remove or error removing'' s1);
          s3 = emit (Call (StorageUpload filePath)) s2
      in if \<not> upload_ok env then (Inl (PublishError Upload), s3)
         else
           (let s4 = s3\<lparr>bucket := (bucket s3)(filePath \<mapsto> buf)\<rparr>;
                publicUrl = getPublicUrl env (filePath @ ''?v='' @ decimal (clock_upload env));
                s5 = emit (Call (DbUpdate projectId)) s4
            in if \<not> update_ok env then (Inl (PublishError RecordUpdate), s5)
               else
                 (let s6 = (case projects s5 projectId of
                              None \<Rightarrow> s5
                            | Some row \<Rightarrow>
                                s5\<lparr>projects := (projects s5)(projectId \<mapsto>
                                  row\<lparr>screenshot := publicUrl,
                                      updated_at := clock_updated env\<rparr>)\<rparr>)
                  in (Inr publicUrl, console Info ''Image processed and uploaded'' s6))))"

text \<open>
  The whole of \<^verbatim>\<open>processAndUploadImage\<close>: its \<^verbatim>\<open>catch\<close> logs the error and throws it
  again. The result is the \<^verbatim>\<open>url\<close> and the \<^verbatim>\<open>size\<close> of the object it returns.
\<close>

definition processAndUploadImage ::
    "env \<Rightarrow> path \<Rightarrow> string \<Rightarrow> state \<Rightarrow> (error + string \<times> rat) \<times> state" where
  "processAndUploadImage env imagePath projectId s =
     (let s0 = console Info ''Processing and uploading image to Supabase...'' s in
      case compressImage env imagePath s0 of
        (Inl e, s1) \<Rightarrow> (Inl e, console Err ''Error processing/uploading image'' s1)
      | (Inr (buf, compressedSize), s1) \<Rightarrow>
         (case publishImage env projectId buf s1 of
            (Inl e, s2) \<Rightarrow> (Inl e, console Err ''Error processing/uploading image'' s2)
          | (Inr publicUrl, s2) \<Rightarrow> (Inr (publicUrl, compressedSize), s2)))"

section \<open>The pipeline (index.js, lines 160 to 317)\<close>

text \<open>
  A statement of the \<^verbatim>\<open>try\<close> block either lets the next one run, returns from the
  function, or throws. \<open>run\<close> executes a sequence of statements and stops at the first that
  does not continue.
\<close>

datatype outcome = Continue | Return | Throw error

type_synonym step = "state \<Rightarrow> outcome \<times> state"

fun run :: "step list \<Rightarrow> step" where
  "run [] s = (Continue, s)"
| "run (st # sts) s =
     (case st s of
        (Continue, s') \<Rightarrow> run sts s'
      | (Return, s') \<Rightarrow> (Return, s')
      | (Throw e, s') \<Rightarrow> (Throw e, s'))"

definition response_ok :: "nat \<Rightarrow> bool" where
  "response_ok status = (200 \<le> status \<and> status \<le> 299)"

definition appUrl :: "string \<Rightarrow> string" where
  "appUrl pid = ''https://kulp-'' @ pid @ ''.fly.dev''"

definition check_availability :: "env \<Rightarrow> string \<Rightarrow> step" where
  "check_availability env pid s =
     (let s1 = console Info ''Checking availability'' s;
          s2 = emit (Call (Fetch (appUrl pid @ ''?_health_check='' @ decimal (clock_health env)))) s1
      in case fetch_result env of
           FetchThrows \<Rightarrow> (Return, console Err ''App availability check failed'' s2)
         | Response status \<Rightarrow>
             if \<not> response_ok status then (Return, console Warn ''App not ready'' s2)
             else (Continue, s2))"

definition launch_browser :: "env \<Rightarrow> step" where
  "launch_browser env s =
     (let s1 = console Info ''Launching browser...'' s;
          s2 = emit (Call Launch) s1
      in if launch_ok env
         then (Continue, console Info ''Browser launched'' (s2\<lparr>browsers := Suc (browsers s2)\<rparr>))
         else (Throw BrowserLaunchError, s2))"

definition new_page :: "env \<Rightarrow> step" where
  "new_page env s =
     (let s1 = emit (Call NewPage) s
      in if newPage_ok env then (Continue, console Info ''New page created'' s1)
         else (Throw SessionError, s1))"

definition set_viewport :: "env \<Rightarrow> step" where
  "set_viewport env s =
     (let s1 = emit (Call (SetViewport 1920 1080)) s
      in if setViewport_ok env then (Continue, console Info ''Viewport set to 1920x1080'' s1)
         else (Throw SessionError, s1))"

definition navigate :: "env \<Rightarrow> string \<Rightarrow> step" where
  "navigate env pid s =
     (let s1 = console Info ''Navigating'' s;
          s2 = emit (Call (Goto (appUrl pid @ ''?_screenshot='' @ decimal (clock_goto env)))) s1
      in if goto_ok env then (Continue, s2) else (Throw NavigationError, s2))"

definition loadingSelectors :: "string list" where
  "loadingSelectors =
     [''[data-testid=\"loading\"]'', ''.loading'', ''.spinner'', ''.loader'',
      ''[class*=\"loading\"]'', ''[class*=\"spinner\"]'']"

text \<open>
  The loop over the selectors: \<^verbatim>\<open>waitForFunction\<close> resolves when the indicator is gone and
  throws after 5 s otherwise; the \<^verbatim>\<open>catch\<close> is empty, so both go on to the next selector.
\<close>

fun await_indicators :: "env \<Rightarrow> string list \<Rightarrow> state \<Rightarrow> state" where
  "await_indicators env [] s = s"
| "await_indicators env (selector # rest) s =
     (let s1 = emit (Call (WaitForFunction selector)) s
      in if indicator_gone env selector then await_indicators env rest s1
         else await_indicators env rest s1)"

definition await_settle :: "env \<Rightarrow> step" where
  "await_settle env s =
     (let s1 = await_indicators env loadingSelectors s;
          s2 = emit (Call (WaitForTimeout 2000)) s1
      in if waitForTimeout_ok env then (Continue, console Info ''Page loaded'' s2)
         else (Throw SessionError, s2))"

text \<open>
  \<^verbatim>\<open>path.join(screenshotsDir, filename)\<close>, with the directory written relative to
  \<^verbatim>\<open>__dirname\<close>.
\<close>

definition screenshotsDir :: path where
  "screenshotsDir = ''screenshots''"

definition artifact_path :: "string \<Rightarrow> nat \<Rightarrow> path" where
  "artifact_path pid now = screenshotsDir @ ''/'' @ ''screenshot-'' @ pid @ ''-'' @ decimal now @ ''.png''"

text \<open>
  \<^verbatim>\<open>page.screenshot({ path })\<close> writes the file it was given. When it fails it may or may not
  have left a file behind; \<open>ShotFailed\<close> says which.
\<close>

definition capture :: "env \<Rightarrow> string \<Rightarrow> step" where
  "capture env pid s =
     (let p = artifact_path pid (clock_file env);
          s1 = console Info ''Taking screenshot'' (s\<lparr>filepath := Some p\<rparr>);
          s2 = emit (Call (Screenshot p)) s1
      in case screenshot_result env of
           ShotSaved img \<Rightarrow>
             (Continue, console Info ''Screenshot saved'' (s2\<lparr>files := (files s2)(p \<mapsto> img)\<rparr>))
         | ShotFailed None \<Rightarrow> (Throw CaptureError, s2)
         | ShotFailed (Some img) \<Rightarrow> (Throw CaptureError, s2\<lparr>files := (files s2)(p \<mapsto> img)\<rparr>))"

definition stat_file :: step where
  "stat_file s =
     (case filepath s of
        None \<Rightarrow> (Throw FileSystemError, s)
      | Some p \<Rightarrow>
         (let s1 = emit (Call (StatSync p)) s
          in if files s1 p = None then (Throw FileSystemError, s1)
             else (Continue, console Info ''Screenshot size'' s1)))"

definition close_browser :: "env \<Rightarrow> step" where
  "close_browser env s =
     (let s1 = emit (Call Close) s
      in if close_ok env
         then (Continue, console Info ''Browser closed'' (s1\<lparr>browsers := browsers s1 - 1\<rparr>))
         else (Throw CloseError, s1))"

definition process_and_upload :: "env \<Rightarrow> string \<Rightarrow> step" where
  "process_and_upload env pid s =
     (case filepath s of
        None \<Rightarrow> (Throw ImageProcessingError, s)
      | Some p \<Rightarrow>
         (case processAndUploadImage env p pid s of
            (Inl e, s') \<Rightarrow> (Throw e, s')
          | (Inr uploadResult, s') \<Rightarrow> (Continue, s')))"

text \<open>
  \<^verbatim>\<open>fs.unlinkSync\<close> throws when the file is not there or cannot be removed; the result says
  whether it returned.
\<close>

definition unlinkSync :: "env \<Rightarrow> path \<Rightarrow> state \<Rightarrow> bool \<times> state" where
  "unlinkSync env p s =
     (let s1 = emit (Call (UnlinkSync p)) s
      in if files s1 p \<noteq> None \<and> unlink_ok env
         then (True, s1\<lparr>files := (files s1)(p := None)\<rparr>)
         else (False, s1))"

definition cleanup_file :: "env \<Rightarrow> step" where
  "cleanup_file env s =
     (case filepath s of
        None \<Rightarrow> (Continue, console Warn ''Failed to cleanup screenshot file'' s)
      | Some p \<Rightarrow>
         (case unlinkSync env p s of
            (True, s') \<Rightarrow> (Continue, console Info ''Screenshot file cleaned up successfully'' s')
          | (False, s') \<Rightarrow> (Continue, console Warn ''Failed to cleanup screenshot file'' s')))"

definition report :: step where
  "report s =
     (Continue,
      console Info ''Size''
        (console Info ''Screenshot URL''
          (console Info ''Screenshot processing completed successfully''
            (console Info ''{ heapUsed, heapTotal, external, rss }''
              (console Info ''Memory usage difference''
                (console Info ''Total processing time'' s))))))"

definition try_block :: "env \<Rightarrow> string \<Rightarrow> step list" where
  "try_block env pid =
     [check_availability env pid, launch_browser env, new_page env, set_viewport env,
      navigate env pid, await_settle env, capture env pid, stat_file, close_browser env,
      process_and_upload env pid, cleanup_file env, report]"

definition cleanup_after_error :: "env \<Rightarrow> step" where
  "cleanup_after_error env s =
     (case filepath s of
        None \<Rightarrow> (Continue, s)
      | Some p \<Rightarrow>
         (let s1 = emit (Call (ExistsSync p)) s
          in if files s1 p \<noteq> None then
               (case unlinkSync env p s1 of
                  (True, s') \<Rightarrow> (Continue, console Info ''Screenshot file cleaned up after error'' s')
                | (False, s') \<Rightarrow>
                    (Continue, console Warn ''Failed to cleanup screenshot file after error'' s'))
             else (Continue, s1)))"

definition catch_block :: "env \<Rightarrow> step list" where
  "catch_block env =
     [\<lambda>s. (Continue, console Err ''Stack trace'' (console Err ''Screenshot processing error'' s)),
      cleanup_after_error env,
      \<lambda>s. (Continue, console Err ''Screenshot processing failed'' s)]"

text \<open>
  \<^verbatim>\<open>try { body } catch (error) { handler }\<close>: the handler runs when the body throws, from the
  state the body had reached; a \<^verbatim>\<open>return\<close> inside the body leaves the function.
\<close>

definition try_catch :: "step list \<Rightarrow> step list \<Rightarrow> step" where
  "try_catch body handler s =
     (case run body s of
        (Continue, s') \<Rightarrow> (Continue, s')
      | (Return, s') \<Rightarrow> (Return, s')
      | (Throw e, s') \<Rightarrow> run handler s')"

text \<open>
  \<^verbatim>\<open>let filepath;\<close> starts undefined. The outcome of the function is \<open>Throw\<close> when the promise
  it returns is rejected.
\<close>

definition processScreenshotAsync :: "env \<Rightarrow> string \<Rightarrow> step" where
  "processScreenshotAsync env pid s =
     try_catch (try_block env pid) (catch_block env) (s\<lparr>filepath := None\<rparr>)"

section \<open>The route POST /api/fly/take-screenshot (index.js, lines 129 to 157)\<close>

text \<open>
  \<^verbatim>\<open>express.json()\<close> leaves an object in \<^verbatim>\<open>req.body\<close>; its \<^verbatim>\<open>project_id\<close> is a string, as the
  interface declares, or is absent. The test \<^verbatim>\<open>!id\<close> holds for an absent field and for the
  empty string. (The variable \<^verbatim>\<open>id\<close> of the source is \<open>pid\<close> here, \<open>id\<close> being the identity of HOL.)
  The handler does not await \<^verbatim>\<open>processScreenshotAsync\<close>: its outcome is dropped. Nothing
  in the handler's \<^verbatim>\<open>try\<close> throws, so its \<^verbatim>\<open>catch\<close> (the 500 response) has no branch here.
\<close>

record request =
  project_id :: "string option"

definition reject :: "state \<Rightarrow> state" where
  "reject s =
     emit (Respond 400 [(''error'', ''ID is required in request body'')])
       (console Warn ''Request rejected: Missing ID'' s)"

definition acknowledge :: "string \<Rightarrow> state \<Rightarrow> state" where
  "acknowledge pid s =
     console Info ''Immediate response sent, processing screenshot asynchronously''
       (emit (Respond 200
                [(''status'', ''processing''),
                 (''message'', ''Screenshot request received and is being processed''),
                 (''app_name'', ''kulp-'' @ pid),
                 (''project_id'', pid)]) s)"

definition take_screenshot :: "env \<Rightarrow> request \<Rightarrow> state \<Rightarrow> state" where
  "take_screenshot env req s =
     (let s1 = console Info ''New screenshot request received'' s in
      case project_id req of
        None \<Rightarrow> reject s1
      | Some pid \<Rightarrow>
          if pid = [] then reject s1
          else snd (processScreenshotAsync env pid (acknowledge pid s1)))"

section \<open>Notions used in the statements\<close>

text \<open>The statements of the \<^verbatim>\<open>try\<close> block before and after the capture.\<close>

definition pre_capture :: "env \<Rightarrow> string \<Rightarrow> step list" where
  "pre_capture env pid =
     [check_availability env pid, launch_browser env, new_page env, set_viewport env,
      navigate env pid, await_settle env]"

definition post_capture :: "env \<Rightarrow> string \<Rightarrow> step list" where
  "post_capture env pid =
     [stat_file, close_browser env, process_and_upload env pid, cleanup_file env, report]"

text \<open>
  What the end of a run looks like once the artifact is on disk, seen from a state \<open>t\<close>
  reached earlier: the run ends without throwing, \<^verbatim>\<open>unlinkSync\<close> was called on the artifact,
  the file is gone when that call succeeds, and a warning is on the console when it fails.
\<close>

abbreviation cleaned_up :: "env \<Rightarrow> path \<Rightarrow> state \<Rightarrow> outcome \<times> state \<Rightarrow> bool" where
  "cleaned_up env p t r \<equiv>
     fst r = Continue \<and>
     prefix (trace t) (trace (snd r)) \<and>
     Call (UnlinkSync p) \<in> set (new_events t (snd r)) \<and>
     (unlink_ok env \<longrightarrow> files (snd r) p = None) \<and>
     (\<not> unlink_ok env \<longrightarrow>
        Console Warn ''Failed to cleanup screenshot file'' \<in> set (new_events t (snd r)) \<or>
        Console Warn ''Failed to cleanup screenshot file after error'' \<in> set (new_events t (snd r)))"

text \<open>
  The statements before the capture leave the files and \<^verbatim>\<open>filepath\<close> alone and never call
  \<^verbatim>\<open>page.screenshot\<close>.
\<close>

abbreviation before_capture :: "state \<Rightarrow> state \<Rightarrow> bool" where
  "before_capture t t' \<equiv>
     filepath t' = filepath t \<and> files t' = files t \<and>
     (\<exists>evs. trace t' = trace t @ evs \<and> (\<forall>p. Call (Screenshot p) \<notin> set evs))"

section \<open>Concrete runs\<close>

text \<open>
  One environment in which every collaborator succeeds, the first pass yields 45 KB and the
  second 28 KB; the idle service; and a state that holds a captured screenshot. The other
  scenarios are record updates of these.
\<close>

definition happy_env :: env where
  "happy_env =
     \<lparr>clock_health = 1700000000000, clock_goto = 1700000000450, clock_file = 1700000009000,
      clock_upload = 1700000011000, clock_updated = 1700000011200,
      fetch_result = Response 200, launch_ok = True, newPage_ok = True, setViewport_ok = True,
      goto_ok = True, indicator_gone = (\<lambda>sel. True), waitForTimeout_ok = True,
      screenshot_result = ShotSaved [137, 80, 78, 71], close_ok = True,
      encode1 = (\<lambda>img. Some (replicate 46080 0)), encode2 = (\<lambda>buf. Some (replicate 28672 0)),
      remove_result = RemoveDone, upload_ok = True,
      getPublicUrl = (\<lambda>key. ''https://storage.example/projects/'' @ key),
      update_ok = True, unlink_ok = True\<rparr>"

definition idle :: state where
  "idle = \<lparr>files = Map.empty, bucket = Map.empty, projects = Map.empty, browsers = 0,
           filepath = None, trace = []\<rparr>"

definition captured :: state where
  "captured = idle\<lparr>files := [''screenshots/shot.png'' \<mapsto> [137, 80, 78, 71]]\<rparr>"

section \<open>Facts about the compressor and the publisher\<close>

lemma kb_over_ceiling: "(kb n > 30) = (n > 30720)"
proof -
  have "(kb n > 30) = ((of_nat n :: rat) > of_nat 30720)"
    by (simp add: kb_def field_simps)
  also have "\<dots> = (n > 30720)"
    by (rule of_nat_less_iff)
  finally show ?thesis .
qed

lemma kb_within_ceiling: "(kb n \<le> 30) = (n \<le> 30720)"
  using kb_over_ceiling [of n] by (simp add: not_less [symmetric])

lemma emit_fields [simp]:
  "trace (emit e s) = trace s @ [e]" "files (emit e s) = files s" "bucket (emit e s) = bucket s"
  "projects (emit e s) = projects s" "browsers (emit e s) = browsers s"
  "filepath (emit e s) = filepath s"
  by (simp_all add: emit_def)

lemma console_fields [simp]:
  "trace (console l m s) = trace s @ [Console l m]" "files (console l m s) = files s"
  "bucket (console l m s) = bucket s" "projects (console l m s) = projects s"
  "browsers (console l m s) = browsers s" "filepath (console l m s) = filepath s"
  by (simp_all add: console_def)

lemma new_events_append: "trace s' = trace s @ evs \<Longrightarrow> new_events s s' = evs"
  by (simp add: new_events_def)

text \<open>The compressor, one lemma for each way through it.\<close>

lemma compress_missing:
  "files s p = None \<Longrightarrow> fst (compressImage env p s) = Inl ImageProcessingError"
  by (simp add: compressImage_def)

lemma compress_pass1_fails:
  "files s p = Some img \<Longrightarrow> encode1 env img = None \<Longrightarrow>
   fst (compressImage env p s) = Inl ImageProcessingError"
  by (simp add: compressImage_def)

lemma compress_pass1_accepted:
  assumes "files s p = Some img" and "encode1 env img = Some buf1" and "kb (length buf1) \<le> 30"
  shows "compressImage env p s =
           (Inr (buf1, kb (length buf1)),
            console Info ''Image compressed''
              (emit (Call (StatSync p)) (emit (Call (SharpFile p 40 800)) s)))"
  using assms by (simp add: compressImage_def Let_def not_less [symmetric])

lemma compress_pass2_fails:
  assumes "files s p = Some img" and "encode1 env img = Some buf1" and "kb (length buf1) > 30"
      and "encode2 env buf1 = None"
  shows "fst (compressImage env p s) = Inl ImageProcessingError"
  using assms by (simp add: compressImage_def Let_def)

lemma compress_pass2_runs:
  assumes "files s p = Some img" and "encode1 env img = Some buf1" and "kb (length buf1) > 30"
      and "encode2 env buf1 = Some buf2"
  shows "fst (compressImage env p s) =
           Inr (if kb (length buf2) \<le> 30 then (buf2, kb (length buf2)) else (buf1, kb (length buf1)))"
  using assms by (simp add: compressImage_def Let_def)

text \<open>
  Claim C1, as the code has it: when the first pass is over the ceiling and the second pass
  returns a buffer, the second result becomes the final payload exactly when it is at or
  under 30 KB (30720 bytes); otherwise the first result is kept, also when the second one is
  the smaller of the two.
\<close>

theorem pass2_adopted_iff_within_ceiling:
  assumes "files s p = Some img" and "encode1 env img = Some buf1" and "kb (length buf1) > 30"
      and "encode2 env buf1 = Some buf2"
  shows "final_payload env p s = Some (if length buf2 \<le> 30720 then buf2 else buf1)"
  using compress_pass2_runs [OF assms]
  by (simp add: final_payload_def kb_within_ceiling)

text \<open>Pass 1 gives 45 KB and pass 2 gives 28 KB: the 28 KB buffer is final.\<close>

theorem pass2_adopted_iff_within_ceiling_witness:
  "final_payload happy_env ''screenshots/shot.png'' captured = Some (replicate 28672 0)"
  using pass2_adopted_iff_within_ceiling [of captured "''screenshots/shot.png''" "[137, 80, 78, 71]" happy_env
      "replicate 46080 0" "replicate 28672 0"]
  by (simp add: happy_env_def captured_def idle_def kb_over_ceiling)

text \<open>
  Pass 1 gives 45 KB and pass 2 gives 35 KB: the second buffer is the smaller one, and the
  final payload is still the 45 KB buffer of pass 1.
\<close>

theorem pass2_smaller_but_over_ceiling_discarded:
  "encode1 (happy_env\<lparr>encode2 := (\<lambda>buf. Some (replicate 35840 0))\<rparr>) [137, 80, 78, 71] = Some (replicate 46080 0)
   \<and> encode2 (happy_env\<lparr>encode2 := (\<lambda>buf. Some (replicate 35840 0))\<rparr>) (replicate 46080 0) = Some (replicate 35840 0)
   \<and> length (replicate 35840 (0::byte)) < length (replicate 46080 (0::byte))
   \<and> final_payload (happy_env\<lparr>encode2 := (\<lambda>buf. Some (replicate 35840 0))\<rparr>) ''screenshots/shot.png'' captured
        = Some (replicate 46080 0)
   \<and> final_payload (happy_env\<lparr>encode2 := (\<lambda>buf. Some (replicate 35840 0))\<rparr>) ''screenshots/shot.png'' captured
        \<noteq> Some (replicate 35840 0)"
  by (simp add: final_payload_def compressImage_def Let_def happy_env_def captured_def idle_def
      kb_over_ceiling kb_within_ceiling)

text \<open>
  Claim C9: the two size tests of the compressor are tests on the byte length against
  30 * 1024 = 30720 bytes. The compressor written with the tests on raw bytes is the same
  function as the one of the source, which tests the quotients by 1024.
\<close>

theorem size_tests_on_raw_bytes: "compressImage env p s = compressImage_bytes env p s
   \<and> (kb n > 30) = (n > 30 * 1024) \<and> (kb n \<le> 30) = (n \<le> 30 * 1024)"
  by (simp add: compressImage_def compressImage_bytes_def Let_def kb_over_ceiling kb_within_ceiling
      split: option.splits)

text \<open>
  Claim compression_never_grows: whatever payload the compressor returns is no longer than the output of pass 1,
  and when pass 1 is at or under the ceiling its output is the payload and the second
  \<^verbatim>\<open>sharp\<close> call is not made.
\<close>

theorem compression_never_grows:
  assumes "files s p = Some img" and "encode1 env img = Some buf1"
  shows "(final_payload env p s = Some buf \<longrightarrow> length buf \<le> length buf1) \<and>
         (kb (length buf1) \<le> 30 \<longrightarrow>
            final_payload env p s = Some buf1 \<and>
            Call (SharpBuffer 20 600) \<notin> set (new_events s (snd (compressImage env p s))))"
proof (cases "kb (length buf1) \<le> 30")
  case True
  note eq = compress_pass1_accepted [OF assms True]
  have "new_events s (snd (compressImage env p s)) =
          [Call (SharpFile p 40 800), Call (StatSync p), Console Info ''Image compressed'']"
    by (rule new_events_append) (simp add: eq)
  then show ?thesis
    using True by (simp add: final_payload_def eq)
next
  case False
  then have over: "kb (length buf1) > 30" by simp
  show ?thesis
  proof (cases "encode2 env buf1")
    case None
    then show ?thesis
      using False compress_pass2_fails [OF assms over] by (simp add: final_payload_def)
  next
    case (Some buf2)
    have "length buf2 \<le> length buf1" if "kb (length buf2) \<le> 30"
      using that over by (simp add: kb_within_ceiling kb_over_ceiling)
    then show ?thesis
      using False compress_pass2_runs [OF assms over Some]
      by (auto simp add: final_payload_def)
  qed
qed

text \<open>45 KB then 28 KB for the first part; a 20 KB first pass for the second.\<close>

theorem compression_never_grows_witness:
  "length (replicate 28672 (0::byte)) \<le> length (replicate 46080 (0::byte)) \<and>
   final_payload (happy_env\<lparr>encode1 := (\<lambda>img. Some (replicate 20480 0))\<rparr>)
     ''screenshots/shot.png'' captured = Some (replicate 20480 0) \<and>
   Call (SharpBuffer 20 600) \<notin> set (new_events captured
     (snd (compressImage (happy_env\<lparr>encode1 := (\<lambda>img. Some (replicate 20480 0))\<rparr>)
        ''screenshots/shot.png'' captured)))"
proof -
  have a: "files captured ''screenshots/shot.png'' = Some [137, 80, 78, 71]"
    by (simp add: captured_def idle_def)
  have b: "encode1 happy_env [137, 80, 78, 71] = Some (replicate 46080 0)"
    by (simp add: happy_env_def)
  have c: "final_payload happy_env ''screenshots/shot.png'' captured = Some (replicate 28672 0)"
    by (simp add: final_payload_def compressImage_def Let_def happy_env_def captured_def idle_def
        kb_over_ceiling kb_within_ceiling)
  have d: "encode1 (happy_env\<lparr>encode1 := (\<lambda>img. Some (replicate 20480 0))\<rparr>) [137, 80, 78, 71]
             = Some (replicate 20480 0)"
    by simp
  have e: "kb (length (replicate 20480 (0::byte))) \<le> 30"
    by (simp add: kb_within_ceiling)
  show ?thesis
    using compression_never_grows [OF a b, of "replicate 28672 0"] compression_never_grows [OF a d, of "replicate 20480 0"] c e
    by simp
qed

lemma compress_frame:
  "files (snd (compressImage env p s)) = files s \<and>
   bucket (snd (compressImage env p s)) = bucket s \<and>
   projects (snd (compressImage env p s)) = projects s \<and>
   browsers (snd (compressImage env p s)) = browsers s \<and>
   filepath (snd (compressImage env p s)) = filepath s \<and>
   prefix (trace s) (trace (snd (compressImage env p s)))"
  by (simp add: compressImage_def Let_def split: option.splits)

lemma compress_ignores_trace:
  "fst (compressImage env p (console l m s)) = fst (compressImage env p s)"
  by (simp add: compressImage_def Let_def split: option.splits)

lemma publish_frame:
  "files (snd (publishImage env pid buf s)) = files s \<and>
   browsers (snd (publishImage env pid buf s)) = browsers s \<and>
   filepath (snd (publishImage env pid buf s)) = filepath s \<and>
   prefix (trace s) (trace (snd (publishImage env pid buf s)))"
  by (simp add: publishImage_def Let_def split: option.splits remove_result.splits)

lemma publish_update_fails:
  assumes "upload_ok env" and "\<not> update_ok env"
  shows "fst (publishImage env pid buf s) = Inl (PublishError RecordUpdate) \<and>
         bucket (snd (publishImage env pid buf s)) (''screenshots/'' @ pid @ ''.jpg'') = Some buf \<and>
         projects (snd (publishImage env pid buf s)) = projects s"
  using assms by (simp add: publishImage_def Let_def split: remove_result.splits)

lemma process_frame:
  "files (snd (processAndUploadImage env p pid s)) = files s \<and>
   browsers (snd (processAndUploadImage env p pid s)) = browsers s \<and>
   filepath (snd (processAndUploadImage env p pid s)) = filepath s \<and>
   prefix (trace s) (trace (snd (processAndUploadImage env p pid s)))"
proof -
  let ?s0 = "console Info ''Processing and uploading image to Supabase...'' s"
  obtain r s1 where c: "compressImage env p ?s0 = (r, s1)"
    by (cases "compressImage env p ?s0")
  have f1: "files s1 = files s" "browsers s1 = browsers s" "filepath s1 = filepath s"
    and p1: "prefix (trace s) (trace s1)"
    using compress_frame [of env p ?s0] c by (auto dest: append_prefixD)
  show ?thesis
  proof (cases r)
    case (Inl e)
    then show ?thesis
      using c f1 p1 by (simp add: processAndUploadImage_def prefix_order.trans [OF p1])
  next
    case (Inr bk)
    obtain b k where bk: "bk = (b, k)" by (cases bk)
    obtain r2 s2 where u: "publishImage env pid b s1 = (r2, s2)"
      by (cases "publishImage env pid b s1")
    have f2: "files s2 = files s" "browsers s2 = browsers s" "filepath s2 = filepath s"
      and p2: "prefix (trace s) (trace s2)"
      using publish_frame [of env pid b s1] u f1 p1 by auto
    show ?thesis
      using c Inr bk u f2 p2
      by (cases r2) (simp_all add: processAndUploadImage_def prefix_order.trans [OF p2])
  qed
qed

text \<open>
  Claim publish_not_atomic: when the compressor has produced a payload, the upload succeeds and the record
  update fails, \<^verbatim>\<open>processAndUploadImage\<close> throws the update's error, the payload is in the
  bucket under \<^verbatim>\<open>screenshots/<project>.jpg\<close>, and the projects table is as it was.
\<close>

theorem publish_not_atomic:
  assumes "final_payload env p s = Some buf" and "upload_ok env" and "\<not> update_ok env"
  shows "fst (processAndUploadImage env p pid s) = Inl (PublishError RecordUpdate) \<and>
         bucket (snd (processAndUploadImage env p pid s)) (''screenshots/'' @ pid @ ''.jpg'') = Some buf \<and>
         projects (snd (processAndUploadImage env p pid s)) = projects s"
proof -
  let ?s0 = "console Info ''Processing and uploading image to Supabase...'' s"
  obtain r s1 where c: "compressImage env p ?s0 = (r, s1)"
    by (cases "compressImage env p ?s0")
  have "fst (compressImage env p s) = r"
    using compress_ignores_trace [of env p Info "''Processing and uploading image to Supabase...''" s] c
    by simp
  then obtain k where r: "r = Inr (buf, k)"
    using assms(1) by (auto simp add: final_payload_def split: sum.splits)
  have s1: "projects s1 = projects s"
    using compress_frame [of env p ?s0] c by simp
  obtain r2 s2 where u: "publishImage env pid buf s1 = (r2, s2)"
    by (cases "publishImage env pid buf s1")
  show ?thesis
    using publish_update_fails [OF assms(2,3), of pid buf s1] c r u s1
    by (simp add: processAndUploadImage_def)
qed

text \<open>The row of project abc123 keeps its old URL while the new object is stored.\<close>

theorem publish_not_atomic_witness:
  "fst (processAndUploadImage (happy_env\<lparr>update_ok := False\<rparr>) ''screenshots/shot.png'' ''abc123''
          (captured\<lparr>projects := [''abc123'' \<mapsto> \<lparr>screenshot = ''old.jpg'', updated_at = 5\<rparr>]\<rparr>))
     = Inl (PublishError RecordUpdate) \<and>
   bucket (snd (processAndUploadImage (happy_env\<lparr>update_ok := False\<rparr>) ''screenshots/shot.png'' ''abc123''
          (captured\<lparr>projects := [''abc123'' \<mapsto> \<lparr>screenshot = ''old.jpg'', updated_at = 5\<rparr>]\<rparr>)))
     ''screenshots/abc123.jpg'' = Some (replicate 28672 0) \<and>
   projects (snd (processAndUploadImage (happy_env\<lparr>update_ok := False\<rparr>) ''screenshots/shot.png'' ''abc123''
          (captured\<lparr>projects := [''abc123'' \<mapsto> \<lparr>screenshot = ''old.jpg'', updated_at = 5\<rparr>]\<rparr>)))
     ''abc123'' = Some \<lparr>screenshot = ''old.jpg'', updated_at = 5\<rparr>"
proof -
  have a: "final_payload (happy_env\<lparr>update_ok := False\<rparr>) ''screenshots/shot.png''
             (captured\<lparr>projects := [''abc123'' \<mapsto> \<lparr>screenshot = ''old.jpg'', updated_at = 5\<rparr>]\<rparr>)
           = Some (replicate 28672 0)"
    by (simp add: final_payload_def compressImage_def Let_def happy_env_def captured_def idle_def
        kb_over_ceiling kb_within_ceiling)
  have b: "upload_ok (happy_env\<lparr>update_ok := False\<rparr>)" by (simp add: happy_env_def)
  have c: "\<not> update_ok (happy_env\<lparr>update_ok := False\<rparr>)" by simp
  show ?thesis
    using publish_not_atomic [OF a b c, of "''abc123''"] by simp
qed

section \<open>Facts about the pipeline\<close>

lemma run_append:
  "run (xs @ ys) s =
     (case run xs s of
        (Continue, s') \<Rightarrow> run ys s'
      | (Return, s') \<Rightarrow> (Return, s')
      | (Throw e, s') \<Rightarrow> (Throw e, s'))"
  by (induction xs arbitrary: s) (auto split: prod.splits outcome.splits)

lemma run_invariant:
  assumes run: "run sts s = (oc, s')"
      and step: "\<And>st t oc' t'. st \<in> set sts \<Longrightarrow> st t = (oc', t') \<Longrightarrow> Q t t'"
      and refl: "\<And>t. Q t t"
      and trans: "\<And>a b c. Q a b \<Longrightarrow> Q b c \<Longrightarrow> Q a c"
  shows "Q s s'"
  using run step
proof (induction sts arbitrary: s)
  case Nil
  then show ?case by (simp add: refl)
next
  case (Cons st sts)
  obtain o1 s1 where st: "st s = (o1, s1)" by (cases "st s")
  have q1: "Q s s1" using Cons.prems(2) [of st s o1 s1] st by simp
  show ?case
  proof (cases o1)
    case Continue
    then have "run sts s1 = (oc, s')" using Cons.prems(1) st by simp
    moreover have "Q t t'" if "st' \<in> set sts" and "st' t = (oc', t')" for st' t oc' t'
      using Cons.prems(2) [of st' t oc' t'] that by simp
    ultimately have "Q s1 s'" by (rule Cons.IH)
    then show ?thesis using q1 trans by blast
  next
    case Return
    then show ?thesis using Cons.prems(1) st q1 by simp
  next
    case (Throw e)
    then show ?thesis using Cons.prems(1) st q1 by simp
  qed
qed

text \<open>Every statement only adds to the trace.\<close>

lemma check_availability_prefix: "prefix (trace s) (trace (snd (check_availability env pid s)))"
  by (simp add: check_availability_def Let_def split: fetch_result.splits)

lemma launch_browser_prefix: "prefix (trace s) (trace (snd (launch_browser env s)))"
  by (simp add: launch_browser_def Let_def)

lemma new_page_prefix: "prefix (trace s) (trace (snd (new_page env s)))"
  by (simp add: new_page_def Let_def)

lemma set_viewport_prefix: "prefix (trace s) (trace (snd (set_viewport env s)))"
  by (simp add: set_viewport_def Let_def)

lemma navigate_prefix: "prefix (trace s) (trace (snd (navigate env pid s)))"
  by (simp add: navigate_def Let_def)

lemma await_indicators_frame:
  "files (await_indicators env sels s) = files s \<and>
   filepath (await_indicators env sels s) = filepath s \<and>
   browsers (await_indicators env sels s) = browsers s \<and>
   (\<exists>evs. trace (await_indicators env sels s) = trace s @ evs \<and>
          (\<forall>e \<in> set evs. \<exists>sel. e = Call (WaitForFunction sel)))"
proof (induction sels arbitrary: s)
  case Nil
  then show ?case by simp
next
  case (Cons sel sels)
  let ?s1 = "emit (Call (WaitForFunction sel)) s"
  obtain evs where "trace (await_indicators env sels ?s1) = trace ?s1 @ evs"
    and "\<forall>e \<in> set evs. \<exists>sel. e = Call (WaitForFunction sel)"
    using Cons.IH [of ?s1] by blast
  then have "trace (await_indicators env sels ?s1) = trace s @ (Call (WaitForFunction sel) # evs) \<and>
    (\<forall>e \<in> set (Call (WaitForFunction sel) # evs). \<exists>sel. e = Call (WaitForFunction sel))"
    by simp
  then show ?case
    using Cons.IH [of ?s1] by (simp add: Let_def)
qed

lemma await_settle_prefix: "prefix (trace s) (trace (snd (await_settle env s)))"
  using await_indicators_frame [of env loadingSelectors s]
  by (auto simp add: await_settle_def Let_def)

lemma capture_prefix: "prefix (trace s) (trace (snd (capture env pid s)))"
  by (simp add: capture_def Let_def split: shot_result.splits option.splits)

lemma stat_file_prefix: "prefix (trace s) (trace (snd (stat_file s)))"
  by (simp add: stat_file_def Let_def split: option.splits)

lemma close_browser_prefix: "prefix (trace s) (trace (snd (close_browser env s)))"
  by (simp add: close_browser_def Let_def)

lemma process_and_upload_prefix: "prefix (trace s) (trace (snd (process_and_upload env pid s)))"
proof (cases "filepath s")
  case None
  then show ?thesis by (simp add: process_and_upload_def)
next
  case (Some p)
  obtain r s' where r: "processAndUploadImage env p pid s = (r, s')"
    by (cases "processAndUploadImage env p pid s")
  then have "prefix (trace s) (trace s')"
    using process_frame [of env p pid s] by simp
  then show ?thesis
    using Some r by (cases r) (simp_all add: process_and_upload_def)
qed

lemma unlinkSync_trace: "trace (snd (unlinkSync env p s)) = trace s @ [Call (UnlinkSync p)]"
  by (simp add: unlinkSync_def Let_def)

lemma cleanup_file_prefix: "prefix (trace s) (trace (snd (cleanup_file env s)))"
  by (simp add: cleanup_file_def unlinkSync_def Let_def split: option.splits)

lemma report_prefix: "prefix (trace s) (trace (snd (report s)))"
  by (simp add: report_def)

lemma cleanup_after_error_prefix: "prefix (trace s) (trace (snd (cleanup_after_error env s)))"
proof (cases "filepath s")
  case None
  then show ?thesis by (simp add: cleanup_after_error_def)
next
  case (Some p)
  then show ?thesis
    by (simp add: cleanup_after_error_def unlinkSync_def Let_def)
qed

lemma try_block_prefix: "prefix (trace s) (trace (snd (run (try_block env pid) s)))"
proof -
  obtain oc s' where r: "run (try_block env pid) s = (oc, s')"
    by (cases "run (try_block env pid) s")
  have "prefix (trace s) (trace s')"
  proof (rule run_invariant [OF r, where Q = "\<lambda>t t'. prefix (trace t) (trace t')"])
    fix st t oc' t'
    assume "st \<in> set (try_block env pid)" and "st t = (oc', t')"
    then show "prefix (trace t) (trace t')"
      using check_availability_prefix [of t env pid] launch_browser_prefix [of t env]
        new_page_prefix [of t env] set_viewport_prefix [of t env] navigate_prefix [of t env pid]
        await_settle_prefix [of t env] capture_prefix [of t env pid] stat_file_prefix [of t]
        close_browser_prefix [of t env] process_and_upload_prefix [of t env pid]
        cleanup_file_prefix [of t env] report_prefix [of t]
      by (auto simp add: try_block_def)
  qed (auto intro: prefix_order.trans)
  then show ?thesis using r by simp
qed

lemma catch_block_prefix: "prefix (trace s) (trace (snd (run (catch_block env) s)))"
proof -
  obtain oc s' where r: "run (catch_block env) s = (oc, s')"
    by (cases "run (catch_block env) s")
  have "prefix (trace s) (trace s')"
  proof (rule run_invariant [OF r, where Q = "\<lambda>t t'. prefix (trace t) (trace t')"])
    fix st t oc' t'
    assume "st \<in> set (catch_block env)" and "st t = (oc', t')"
    then show "prefix (trace t) (trace t')"
      using cleanup_after_error_prefix [of t env]
      by (auto simp add: catch_block_def)
  qed (auto intro: prefix_order.trans)
  then show ?thesis using r by simp
qed

lemma try_catch_step:
  "try_catch (st # body) handler s =
     (case st s of
        (Continue, s') \<Rightarrow> try_catch body handler s'
      | (Return, s') \<Rightarrow> (Return, s')
      | (Throw e, s') \<Rightarrow> run handler s')"
  by (simp add: try_catch_def split: prod.splits outcome.splits)

lemma try_catch_append:
  "try_catch (xs @ ys) handler s =
     (case run xs s of
        (Continue, s') \<Rightarrow> try_catch ys handler s'
      | (Return, s') \<Rightarrow> (Return, s')
      | (Throw e, s') \<Rightarrow> run handler s')"
  by (simp add: try_catch_def run_append split: prod.splits outcome.splits)

lemma try_catch_prefix:
  assumes "\<And>t. prefix (trace t) (trace (snd (run body t)))"
      and "\<And>t. prefix (trace t) (trace (snd (run handler t)))"
  shows "prefix (trace s) (trace (snd (try_catch body handler s)))"
proof -
  obtain oc s1 where r: "run body s = (oc, s1)"
    by (cases "run body s")
  have p1: "prefix (trace s) (trace s1)"
    using assms(1) [of s] r by simp
  show ?thesis
  proof (cases oc)
    case (Throw e)
    then show ?thesis
      using r p1 assms(2) [of s1]
      by (auto simp add: try_catch_def intro: prefix_order.trans)
  qed (use r p1 in \<open>simp_all add: try_catch_def\<close>)
qed

lemma pipeline_prefix: "prefix (trace s) (trace (snd (processScreenshotAsync env pid s)))"
  using try_catch_prefix [of "try_block env pid" "catch_block env" "s\<lparr>filepath := None\<rparr>",
      OF try_block_prefix catch_block_prefix]
  by (simp add: processScreenshotAsync_def)

lemma new_events_after:
  assumes "trace t = trace s @ evs" and "prefix (trace t) (trace t')"
  shows "new_events s t' = evs @ new_events t t'"
proof -
  obtain zs where "trace t' = trace t @ zs"
    using assms(2) by (auto elim: prefixE)
  then show ?thesis
    using assms(1) by (simp add: new_events_def)
qed

text \<open>
  Claim response_precedes_pipeline: for a request whose \<^verbatim>\<open>project_id\<close> is a non-empty string, the handler first logs
  the arrival, then sends the response 200 with \<^verbatim>\<open>status\<close>, \<^verbatim>\<open>message\<close>, \<^verbatim>\<open>app_name\<close> and
  \<^verbatim>\<open>project_id\<close>, and only then runs the pipeline: every event of the pipeline, the probe
  and the browser launch among them, comes after the response in the trace, and the
  response does not depend on what the collaborators answer.
\<close>

theorem response_precedes_pipeline:
  assumes "project_id req = Some pid" and "pid \<noteq> []"
  shows "take_screenshot env req s =
           snd (processScreenshotAsync env pid
                  (acknowledge pid (console Info ''New screenshot request received'' s))) \<and>
         new_events s (take_screenshot env req s) =
           [Console Info ''New screenshot request received'',
            Respond 200
              [(''status'', ''processing''),
               (''message'', ''Screenshot request received and is being processed''),
               (''app_name'', ''kulp-'' @ pid),
               (''project_id'', pid)],
            Console Info ''Immediate response sent, processing screenshot asynchronously'']
           @ new_events (acknowledge pid (console Info ''New screenshot request received'' s))
               (take_screenshot env req s)"
proof -
  let ?s3 = "acknowledge pid (console Info ''New screenshot request received'' s)"
  have run: "take_screenshot env req s = snd (processScreenshotAsync env pid ?s3)"
    using assms by (simp add: take_screenshot_def Let_def)
  have tr: "trace ?s3 = trace s @ [Console Info ''New screenshot request received'',
            Respond 200
              [(''status'', ''processing''),
               (''message'', ''Screenshot request received and is being processed''),
               (''app_name'', ''kulp-'' @ pid),
               (''project_id'', pid)],
            Console Info ''Immediate response sent, processing screenshot asynchronously'']"
    by (simp add: acknowledge_def)
  have "prefix (trace ?s3) (trace (take_screenshot env req s))"
    unfolding run by (rule pipeline_prefix)
  from new_events_after [OF tr this] run show ?thesis by simp
qed

text \<open>
  Claim missing_id_rejected: a request without \<^verbatim>\<open>project_id\<close> gets the response 400 with an error body; the
  only events are two console lines and that response, no collaborator is called, and
  files, bucket, table and browsers are as before.
\<close>

theorem missing_id_rejected:
  assumes "project_id req = None"
  shows "new_events s (take_screenshot env req s) =
           [Console Info ''New screenshot request received'',
            Console Warn ''Request rejected: Missing ID'',
            Respond 400 [(''error'', ''ID is required in request body'')]] \<and>
         filter is_call (new_events s (take_screenshot env req s)) = [] \<and>
         files (take_screenshot env req s) = files s \<and>
         bucket (take_screenshot env req s) = bucket s \<and>
         projects (take_screenshot env req s) = projects s \<and>
         browsers (take_screenshot env req s) = browsers s"
  using assms by (simp add: take_screenshot_def reject_def new_events_def)

text \<open>
  Claim probe_failure_is_terminal: when the probe throws or answers with a status outside 200 to 299, the pipeline
  returns after three events (a console line, the \<^verbatim>\<open>fetch\<close>, and a warning or error line):
  no browser is launched, no file is written, nothing is published.
\<close>

theorem probe_failure_is_terminal:
  assumes "fetch_result env = FetchThrows \<or>
           (\<exists>status. fetch_result env = Response status \<and> \<not> response_ok status)"
  shows "fst (processScreenshotAsync env pid s) = Return \<and>
         new_events s (snd (processScreenshotAsync env pid s)) =
           [Console Info ''Checking availability'',
            Call (Fetch (appUrl pid @ ''?_health_check='' @ decimal (clock_health env))),
            (if fetch_result env = FetchThrows
             then Console Err ''App availability check failed''
             else Console Warn ''App not ready'')] \<and>
         files (snd (processScreenshotAsync env pid s)) = files s \<and>
         bucket (snd (processScreenshotAsync env pid s)) = bucket s \<and>
         projects (snd (processScreenshotAsync env pid s)) = projects s \<and>
         browsers (snd (processScreenshotAsync env pid s)) = browsers s"
proof -
  let ?s0 = "s\<lparr>filepath := None\<rparr>"
  let ?s2 = "emit (Call (Fetch (appUrl pid @ ''?_health_check='' @ decimal (clock_health env))))
               (console Info ''Checking availability'' ?s0)"
  have chk: "check_availability env pid ?s0 =
          (Return, if fetch_result env = FetchThrows
                   then console Err ''App availability check failed'' ?s2
                   else console Warn ''App not ready'' ?s2)"
    using assms by (auto simp add: check_availability_def Let_def)
  have "processScreenshotAsync env pid s =
          (Return, if fetch_result env = FetchThrows
                   then console Err ''App availability check failed'' ?s2
                   else console Warn ''App not ready'' ?s2)"
    by (simp add: processScreenshotAsync_def try_block_def try_catch_step chk)
  then show ?thesis
    by (simp add: new_events_def)
qed

lemma new_events_mono:
  assumes "prefix (trace s) (trace t)" and "prefix (trace t) (trace t')"
  shows "set (new_events t t') \<subseteq> set (new_events s t')"
proof -
  obtain a where a: "trace t = trace s @ a" using assms(1) by (auto elim: prefixE)
  obtain b where b: "trace t' = trace t @ b" using assms(2) by (auto elim: prefixE)
  show ?thesis using a b by (simp add: new_events_def)
qed

lemma cleaned_up_earlier:
  assumes "prefix (trace s) (trace t)" and "cleaned_up env p t r"
  shows "cleaned_up env p s r"
proof -
  have "prefix (trace s) (trace (snd r))"
    using assms by (blast intro: prefix_order.trans)
  moreover have "set (new_events t (snd r)) \<subseteq> set (new_events s (snd r))"
    using assms by (intro new_events_mono) auto
  ultimately show ?thesis using assms(2) by blast
qed

lemma catch_with_file:
  assumes "filepath t = Some p" and "files t p \<noteq> None"
  shows "cleaned_up env p t (run (catch_block env) t)"
  using assms
  by (simp add: catch_block_def cleanup_after_error_def unlinkSync_def Let_def new_events_def)

lemma catch_without_file:
  assumes "filepath t = None"
  shows "run (catch_block env) t =
           (Continue, t\<lparr>trace := trace t @ [Console Err ''Screenshot processing error'',
              Console Err ''Stack trace'', Console Err ''Screenshot processing failed'']\<rparr>)"
  using assms by (simp add: catch_block_def cleanup_after_error_def emit_def console_def)

lemma finish_with_file:
  assumes "filepath t = Some p" and "files t p \<noteq> None"
  shows "cleaned_up env p t (run [cleanup_file env, report] t)"
  using assms
  by (simp add: cleanup_file_def report_def unlinkSync_def Let_def new_events_def)

text \<open>From the capture to the end: every way out of the last five statements.\<close>

lemma after_capture:
  assumes fp: "filepath t = Some p" and fl: "files t p \<noteq> None"
  shows "cleaned_up env p t
           (try_catch [stat_file, close_browser env, process_and_upload env pid,
                       cleanup_file env, report] (catch_block env) t)"
proof -
  let ?t1 = "console Info ''Screenshot size'' (emit (Call (StatSync p)) t)"
  let ?t2 = "emit (Call Close) ?t1"
  have stat: "stat_file t = (Continue, ?t1)"
    using fp fl by (simp add: stat_file_def Let_def)
  show ?thesis
  proof (cases "close_ok env")
    case False
    then have cl: "close_browser env ?t1 = (Throw CloseError, ?t2)"
      by (simp add: close_browser_def Let_def)
    have "cleaned_up env p ?t2 (run (catch_block env) ?t2)"
      using fp fl by (intro catch_with_file) simp_all
    then have c: "cleaned_up env p t (run (catch_block env) ?t2)"
      by (rule cleaned_up_earlier [rotated]) simp
    have eq: "run [stat_file, close_browser env, process_and_upload env pid,
                      cleanup_file env, report] t = (Throw CloseError, ?t2)"
      by (simp only: run.simps stat cl prod.case outcome.case)
    show ?thesis
      unfolding try_catch_def eq prod.case outcome.case by (rule c)
  next
    case True
    let ?t3 = "console Info ''Browser closed'' (?t2\<lparr>browsers := browsers ?t2 - 1\<rparr>)"
    have cl: "close_browser env ?t1 = (Continue, ?t3)"
      using True by (simp add: close_browser_def Let_def)
    have fp3: "filepath ?t3 = Some p" and file3: "files ?t3 p \<noteq> None"
      and pre3: "prefix (trace t) (trace ?t3)"
      using fp fl by simp_all
    obtain r t4 where pu: "processAndUploadImage env p pid ?t3 = (r, t4)"
      by (cases "processAndUploadImage env p pid ?t3")
    have fp4: "filepath t4 = Some p" and file4: "files t4 p \<noteq> None"
      and pre4: "prefix (trace ?t3) (trace t4)"
      using process_frame [of env p pid ?t3] pu fp3 file3 by simp_all
    have pre: "prefix (trace t) (trace t4)"
      using pre3 pre4 by (rule prefix_order.trans)
    show ?thesis
    proof (cases r)
      case (Inl e)
      then have st: "process_and_upload env pid ?t3 = (Throw e, t4)"
        using pu fp3 by (simp add: process_and_upload_def)
      have "cleaned_up env p t4 (run (catch_block env) t4)"
        using fp4 file4 by (rule catch_with_file)
      then have c: "cleaned_up env p t (run (catch_block env) t4)"
        by (rule cleaned_up_earlier [OF pre])
      have eq: "run [stat_file, close_browser env, process_and_upload env pid,
                      cleanup_file env, report] t = (Throw e, t4)"
        by (simp only: run.simps stat cl st prod.case outcome.case)
      show ?thesis
        unfolding try_catch_def eq prod.case outcome.case by (rule c)
    next
      case (Inr res)
      then have st: "process_and_upload env pid ?t3 = (Continue, t4)"
        using pu fp3 by (simp add: process_and_upload_def)
      have fin: "cleaned_up env p t4 (run [cleanup_file env, report] t4)"
        using fp4 file4 by (rule finish_with_file)
      then have c: "cleaned_up env p t (run [cleanup_file env, report] t4)"
        by (rule cleaned_up_earlier [OF pre])
      obtain t5 where t5: "run [cleanup_file env, report] t4 = (Continue, t5)"
        using fin by (cases "run [cleanup_file env, report] t4") auto
      have eq: "run [stat_file, close_browser env, process_and_upload env pid,
                      cleanup_file env, report] t = (Continue, t5)"
        using t5 by (simp only: run.simps stat cl st prod.case outcome.case)
      show ?thesis
        using c unfolding try_catch_def eq t5 prod.case outcome.case .
    qed
  qed
qed

lemma before_capture_trans:
  assumes "before_capture a b" and "before_capture b c"
  shows "before_capture a c"
proof -
  obtain e1 where e1: "trace b = trace a @ e1" "\<forall>p. Call (Screenshot p) \<notin> set e1"
    using assms(1) by blast
  obtain e2 where e2: "trace c = trace b @ e2" "\<forall>p. Call (Screenshot p) \<notin> set e2"
    using assms(2) by blast
  have "trace c = trace a @ (e1 @ e2) \<and> (\<forall>p. Call (Screenshot p) \<notin> set (e1 @ e2))"
    using e1 e2 by simp
  then show ?thesis using assms by (metis (no_types, lifting))
qed

lemma check_availability_before: "before_capture s (snd (check_availability env pid s))"
  by (simp add: check_availability_def Let_def split: fetch_result.splits)

lemma launch_browser_before: "before_capture s (snd (launch_browser env s))"
  by (simp add: launch_browser_def Let_def)

lemma new_page_before: "before_capture s (snd (new_page env s))"
  by (simp add: new_page_def Let_def)

lemma set_viewport_before: "before_capture s (snd (set_viewport env s))"
  by (simp add: set_viewport_def Let_def)

lemma navigate_before: "before_capture s (snd (navigate env pid s))"
  by (simp add: navigate_def Let_def)

lemma await_settle_before: "before_capture s (snd (await_settle env s))"
proof -
  let ?s1 = "await_indicators env loadingSelectors s"
  obtain evs where evs: "trace ?s1 = trace s @ evs"
      "\<forall>e \<in> set evs. \<exists>sel. e = Call (WaitForFunction sel)"
    using await_indicators_frame [of env loadingSelectors s] by blast
  have no: "\<forall>p. Call (Screenshot p) \<notin> set evs"
    using evs(2) by auto
  have fr: "filepath ?s1 = filepath s" "files ?s1 = files s"
    using await_indicators_frame [of env loadingSelectors s] by simp_all
  show ?thesis
    using evs(1) no fr by (simp add: await_settle_def Let_def)
qed

lemma try_block_split:
  "try_block env pid = pre_capture env pid @ capture env pid # post_capture env pid"
  by (simp add: try_block_def pre_capture_def post_capture_def)

lemma pre_capture_run:
  assumes "run (pre_capture env pid) s = (oc, s')"
  shows "before_capture s s'"
proof (rule run_invariant [OF assms, where Q = before_capture])
  fix st t oc' t'
  assume "st \<in> set (pre_capture env pid)" and "st t = (oc', t')"
  then show "before_capture t t'"
    using check_availability_before [where s = t and env = env and pid = pid]
      launch_browser_before [where s = t and env = env]
      new_page_before [where s = t and env = env]
      set_viewport_before [where s = t and env = env]
      navigate_before [where s = t and env = env and pid = pid]
      await_settle_before [where s = t and env = env]
    by (auto simp add: pre_capture_def)
next
  fix t show "before_capture t t" by simp
next
  fix a b c assume "before_capture a b" and "before_capture b c"
  then show "before_capture a c" by (rule before_capture_trans)
qed

lemma cleanup_on_every_exit:
  assumes shot: "Call (Screenshot (artifact_path pid (clock_file env)))
                   \<in> set (new_events s (snd (processScreenshotAsync env pid s)))"
      and wrote: "screenshot_result env \<noteq> ShotFailed None"
  shows "cleaned_up env (artifact_path pid (clock_file env)) s (processScreenshotAsync env pid s)"
proof -
  let ?s0 = "s\<lparr>filepath := None\<rparr>"
  let ?q = "artifact_path pid (clock_file env)"
  obtain oc1 s1 where r1: "run (pre_capture env pid) ?s0 = (oc1, s1)"
    by (cases "run (pre_capture env pid) ?s0")
  have "before_capture ?s0 s1"
    using r1 by (rule pre_capture_run)
  then obtain evs1 where fp1: "filepath s1 = None" and tr1: "trace s1 = trace s @ evs1"
      and no1: "\<forall>p. Call (Screenshot p) \<notin> set evs1"
    by auto
  have pre1: "prefix (trace s) (trace s1)"
    using tr1 by simp
  have whole: "processScreenshotAsync env pid s =
      (case (oc1, s1) of
         (Continue, s') \<Rightarrow> try_catch (capture env pid # post_capture env pid) (catch_block env) s'
       | (Return, s') \<Rightarrow> (Return, s')
       | (Throw e, s') \<Rightarrow> run (catch_block env) s')"
    by (simp only: processScreenshotAsync_def try_block_split try_catch_append r1)
  show ?thesis
  proof (cases oc1)
    case Return
    then have "new_events s (snd (processScreenshotAsync env pid s)) = evs1"
      using whole tr1 by (simp add: new_events_def)
    then show ?thesis using shot no1 by simp
  next
    case (Throw e)
    then have "new_events s (snd (processScreenshotAsync env pid s)) =
        evs1 @ [Console Err ''Screenshot processing error'',
              Console Err ''Stack trace'', Console Err ''Screenshot processing failed'']"
      using whole tr1 catch_without_file [OF fp1, of env] by (simp add: new_events_def)
    then show ?thesis using shot no1 by simp
  next
    case Continue
    then have rest: "processScreenshotAsync env pid s =
        try_catch (capture env pid # post_capture env pid) (catch_block env) s1"
      using whole by simp
    let ?c2 = "emit (Call (Screenshot ?q))
                 (console Info ''Taking screenshot'' (s1\<lparr>filepath := Some ?q\<rparr>))"
    show ?thesis
    proof (cases "screenshot_result env")
      case (ShotSaved img)
      let ?s2 = "console Info ''Screenshot saved'' (?c2\<lparr>files := (files ?c2)(?q \<mapsto> img)\<rparr>)"
      have cap: "capture env pid s1 = (Continue, ?s2)"
        using ShotSaved by (simp add: capture_def Let_def)
      have "cleaned_up env ?q ?s2 (try_catch (post_capture env pid) (catch_block env) ?s2)"
        unfolding post_capture_def by (rule after_capture) simp_all
      moreover have "prefix (trace s) (trace ?s2)"
        using tr1 by simp
      ultimately have "cleaned_up env ?q s (try_catch (post_capture env pid) (catch_block env) ?s2)"
        by (rule cleaned_up_earlier [rotated])
      moreover have "processScreenshotAsync env pid s =
          try_catch (post_capture env pid) (catch_block env) ?s2"
        by (simp only: rest try_catch_step cap prod.case outcome.case)
      ultimately show ?thesis by simp
    next
      case (ShotFailed left)
      then obtain img where left: "left = Some img"
        using wrote by (cases left) auto
      let ?s2 = "?c2\<lparr>files := (files ?c2)(?q \<mapsto> img)\<rparr>"
      have cap: "capture env pid s1 = (Throw CaptureError, ?s2)"
        using ShotFailed left by (simp add: capture_def Let_def)
      have "cleaned_up env ?q ?s2 (run (catch_block env) ?s2)"
        by (rule catch_with_file) simp_all
      moreover have "prefix (trace s) (trace ?s2)"
        using tr1 by simp
      ultimately have "cleaned_up env ?q s (run (catch_block env) ?s2)"
        by (rule cleaned_up_earlier [rotated])
      moreover have "processScreenshotAsync env pid s = run (catch_block env) ?s2"
        by (simp only: rest try_catch_step cap prod.case outcome.case)
      ultimately show ?thesis by simp
    qed
  qed
qed

lemma new_events_later:
  assumes "x \<in> set (new_events a b)" and "prefix (trace a) (trace b)"
      and "prefix (trace b) (trace c)"
  shows "x \<in> set (new_events a c)"
proof -
  obtain u where u: "trace b = trace a @ u" using assms(2) by (auto elim: prefixE)
  obtain v where v: "trace c = trace b @ v" using assms(3) by (auto elim: prefixE)
  show ?thesis using assms(1) u v by (simp add: new_events_def)
qed

lemma post_capture_prefix: "prefix (trace s) (trace (snd (run (post_capture env pid) s)))"
proof -
  obtain oc s' where r: "run (post_capture env pid) s = (oc, s')"
    by (cases "run (post_capture env pid) s")
  have "prefix (trace s) (trace s')"
  proof (rule run_invariant [OF r, where Q = "\<lambda>t t'. prefix (trace t) (trace t')"])
    fix st t oc' t'
    assume "st \<in> set (post_capture env pid)" and "st t = (oc', t')"
    then show "prefix (trace t) (trace t')"
      using stat_file_prefix [of t] close_browser_prefix [of t env]
        process_and_upload_prefix [of t env pid] cleanup_file_prefix [of t env]
        report_prefix [of t]
      by (auto simp add: post_capture_def)
  qed (auto intro: prefix_order.trans)
  then show ?thesis using r by simp
qed

text \<open>When everything up to the capture succeeds, \<^verbatim>\<open>page.screenshot\<close> is called.\<close>

lemma capture_reached:
  assumes "fetch_result env = Response status" and "response_ok status" and "launch_ok env"
      and "newPage_ok env" and "setViewport_ok env" and "goto_ok env" and "waitForTimeout_ok env"
  shows "Call (Screenshot (artifact_path pid (clock_file env)))
           \<in> set (new_events s (snd (processScreenshotAsync env pid s)))"
proof -
  let ?s0 = "s\<lparr>filepath := None\<rparr>"
  let ?q = "artifact_path pid (clock_file env)"
  obtain oc1 s1 where r1: "run (pre_capture env pid) ?s0 = (oc1, s1)"
    by (cases "run (pre_capture env pid) ?s0")
  have "fst (run (pre_capture env pid) ?s0) = Continue"
    using assms
    by (simp add: pre_capture_def check_availability_def launch_browser_def new_page_def
        set_viewport_def navigate_def await_settle_def Let_def)
  then have oc1: "oc1 = Continue" using r1 by simp
  have "before_capture ?s0 s1" using r1 by (rule pre_capture_run)
  then have pre1: "prefix (trace s) (trace s1)" by auto
  have whole: "processScreenshotAsync env pid s =
      try_catch (capture env pid # post_capture env pid) (catch_block env) s1"
    by (simp add: processScreenshotAsync_def try_block_split try_catch_append r1 oc1)
  obtain oc2 s2 where cap: "capture env pid s1 = (oc2, s2)"
    by (cases "capture env pid s1")
  have in2: "Call (Screenshot ?q) \<in> set (new_events s1 s2)"
    using cap by (auto simp add: capture_def Let_def new_events_def split: shot_result.splits option.splits)
  have pre2: "prefix (trace s1) (trace s2)"
    using capture_prefix [of s1 env pid] cap by simp
  have pre3: "prefix (trace s2) (trace (snd (processScreenshotAsync env pid s)))"
  proof (cases oc2)
    case Continue
    then show ?thesis
      using try_catch_prefix [of "post_capture env pid" "catch_block env" s2,
          OF post_capture_prefix catch_block_prefix]
      by (simp add: whole try_catch_step cap)
  next
    case Return
    then show ?thesis by (simp add: whole try_catch_step cap)
  next
    case (Throw e)
    then show ?thesis
      using catch_block_prefix [of s2 env] by (simp add: whole try_catch_step cap)
  qed
  have "Call (Screenshot ?q) \<in> set (new_events s1 (snd (processScreenshotAsync env pid s)))"
    using in2 pre2 pre3 by (rule new_events_later)
  moreover have "prefix (trace s1) (trace (snd (processScreenshotAsync env pid s)))"
    using pre2 pre3 by (rule prefix_order.trans)
  ultimately show ?thesis
    using new_events_mono [OF pre1] by blast
qed

text \<open>
  Claim artifact_removed_on_every_exit: in every run that called \<^verbatim>\<open>page.screenshot\<close> and in which that call left a file,
  \<^verbatim>\<open>fs.unlinkSync\<close> is called on the artifact, on the success path and on every failure
  path; the run ends without throwing; the file is gone from the file system when the
  deletion succeeds; and when the deletion fails a warning is logged.
\<close>

theorem artifact_removed_on_every_exit:
  assumes "Call (Screenshot (artifact_path pid (clock_file env)))
             \<in> set (new_events s (snd (processScreenshotAsync env pid s)))"
      and "screenshot_result env \<noteq> ShotFailed None"
  shows "fst (processScreenshotAsync env pid s) = Continue \<and>
         Call (UnlinkSync (artifact_path pid (clock_file env)))
           \<in> set (new_events s (snd (processScreenshotAsync env pid s))) \<and>
         (unlink_ok env \<longrightarrow>
            files (snd (processScreenshotAsync env pid s)) (artifact_path pid (clock_file env)) = None) \<and>
         (\<not> unlink_ok env \<longrightarrow>
            Console Warn ''Failed to cleanup screenshot file''
              \<in> set (new_events s (snd (processScreenshotAsync env pid s))) \<or>
            Console Warn ''Failed to cleanup screenshot file after error''
              \<in> set (new_events s (snd (processScreenshotAsync env pid s))))"
  using cleanup_on_every_exit [OF assms] by blast

text \<open>A run that succeeds, and one whose upload and deletion both fail.\<close>

theorem artifact_removed_on_every_exit_witness:
  "fst (processScreenshotAsync happy_env ''abc123'' idle) = Continue \<and>
   Call (UnlinkSync (artifact_path ''abc123'' 1700000009000))
     \<in> set (new_events idle (snd (processScreenshotAsync happy_env ''abc123'' idle))) \<and>
   files (snd (processScreenshotAsync happy_env ''abc123'' idle))
     (artifact_path ''abc123'' 1700000009000) = None \<and>
   fst (processScreenshotAsync (happy_env\<lparr>upload_ok := False, unlink_ok := False\<rparr>) ''abc123'' idle)
     = Continue \<and>
   Call (UnlinkSync (artifact_path ''abc123'' 1700000009000))
     \<in> set (new_events idle
          (snd (processScreenshotAsync (happy_env\<lparr>upload_ok := False, unlink_ok := False\<rparr>)
             ''abc123'' idle))) \<and>
   (Console Warn ''Failed to cleanup screenshot file''
      \<in> set (new_events idle
           (snd (processScreenshotAsync (happy_env\<lparr>upload_ok := False, unlink_ok := False\<rparr>)
              ''abc123'' idle))) \<or>
    Console Warn ''Failed to cleanup screenshot file after error''
      \<in> set (new_events idle
           (snd (processScreenshotAsync (happy_env\<lparr>upload_ok := False, unlink_ok := False\<rparr>)
              ''abc123'' idle))))"
proof -
  let ?bad = "happy_env\<lparr>upload_ok := False, unlink_ok := False\<rparr>"
  have a: "Call (Screenshot (artifact_path ''abc123'' (clock_file happy_env)))
             \<in> set (new_events idle (snd (processScreenshotAsync happy_env ''abc123'' idle)))"
    by (rule capture_reached [where status = 200]) (simp_all add: happy_env_def response_ok_def)
  have b: "screenshot_result happy_env \<noteq> ShotFailed None"
    by (simp add: happy_env_def)
  have c: "Call (Screenshot (artifact_path ''abc123'' (clock_file ?bad)))
             \<in> set (new_events idle (snd (processScreenshotAsync ?bad ''abc123'' idle)))"
    by (rule capture_reached [where status = 200]) (simp_all add: happy_env_def response_ok_def)
  have d: "screenshot_result ?bad \<noteq> ShotFailed None"
    by (simp add: happy_env_def)
  have e: "clock_file happy_env = 1700000009000" "unlink_ok happy_env"
    "clock_file ?bad = 1700000009000" "\<not> unlink_ok ?bad"
    by (simp_all add: happy_env_def)
  show ?thesis
    using artifact_removed_on_every_exit [OF a b] artifact_removed_on_every_exit [OF c d] e
    by simp
qed

text \<open>The first two events of a request for project abc123.\<close>

theorem response_precedes_pipeline_witness:
  "take 2 (new_events idle (take_screenshot happy_env \<lparr>project_id = Some ''abc123''\<rparr> idle)) =
     [Console Info ''New screenshot request received'',
      Respond 200
        [(''status'', ''processing''),
         (''message'', ''Screenshot request received and is being processed''),
         (''app_name'', ''kulp-abc123''),
         (''project_id'', ''abc123'')]]"
proof -
  have a: "project_id \<lparr>project_id = Some ''abc123''\<rparr> = Some ''abc123''" by simp
  have b: "''abc123'' \<noteq> []" by simp
  from response_precedes_pipeline [OF a b, where s = idle and env = happy_env]
  have "new_events idle (take_screenshot happy_env \<lparr>project_id = Some ''abc123''\<rparr> idle) =
           [Console Info ''New screenshot request received'',
            Respond 200
              [(''status'', ''processing''),
               (''message'', ''Screenshot request received and is being processed''),
               (''app_name'', ''kulp-'' @ ''abc123''),
               (''project_id'', ''abc123'')],
            Console Info ''Immediate response sent, processing screenshot asynchronously'']
           @ new_events (acknowledge ''abc123'' (console Info ''New screenshot request received'' idle))
               (take_screenshot happy_env \<lparr>project_id = Some ''abc123''\<rparr> idle)"
    by (rule conjunct2)
  then show ?thesis by simp
qed

text \<open>A request with an empty body.\<close>

theorem missing_id_rejected_witness:
  "new_events idle (take_screenshot happy_env \<lparr>project_id = None\<rparr> idle) =
     [Console Info ''New screenshot request received'',
      Console Warn ''Request rejected: Missing ID'',
      Respond 400 [(''error'', ''ID is required in request body'')]] \<and>
   browsers (take_screenshot happy_env \<lparr>project_id = None\<rparr> idle) = 0"
  using missing_id_rejected [where req = "\<lparr>project_id = None\<rparr>" and s = idle and env = happy_env]
  by (simp add: idle_def)

text \<open>Project xyz, whose probe answers 503.\<close>

theorem probe_failure_is_terminal_witness:
  "fst (processScreenshotAsync (happy_env\<lparr>fetch_result := Response 503\<rparr>) ''xyz'' idle) = Return \<and>
   new_events idle (snd (processScreenshotAsync (happy_env\<lparr>fetch_result := Response 503\<rparr>) ''xyz'' idle)) =
     [Console Info ''Checking availability'',
      Call (Fetch (''https://kulp-xyz.fly.dev?_health_check='' @ decimal 1700000000000)),
      Console Warn ''App not ready''] \<and>
   files (snd (processScreenshotAsync (happy_env\<lparr>fetch_result := Response 503\<rparr>) ''xyz'' idle))
     = Map.empty \<and>
   browsers (snd (processScreenshotAsync (happy_env\<lparr>fetch_result := Response 503\<rparr>) ''xyz'' idle)) = 0"
proof -
  have "fetch_result (happy_env\<lparr>fetch_result := Response 503\<rparr>) = FetchThrows \<or>
        (\<exists>status. fetch_result (happy_env\<lparr>fetch_result := Response 503\<rparr>) = Response status \<and>
           \<not> response_ok status)"
    by (simp add: response_ok_def)
  from probe_failure_is_terminal [OF this, where pid = "''xyz''" and s = idle] show ?thesis
    by (simp add: happy_env_def idle_def appUrl_def)
qed

text \<open>
  Claim C2 at a run where the launch succeeds and \<^verbatim>\<open>page.goto\<close> times out: the calls made are
  the probe, the launch, \<^verbatim>\<open>newPage\<close>, \<^verbatim>\<open>setViewport\<close> and \<^verbatim>\<open>goto\<close>; \<^verbatim>\<open>browser.close\<close> is
  never called and one browser process is left running when the run has ended.
\<close>

theorem navigation_timeout_leaves_browser_open:
  "fst (processScreenshotAsync (happy_env\<lparr>goto_ok := False\<rparr>) ''abc123'' idle) = Continue \<and>
   filter is_call (trace (snd (processScreenshotAsync (happy_env\<lparr>goto_ok := False\<rparr>) ''abc123'' idle))) =
     [Call (Fetch (''https://kulp-abc123.fly.dev?_health_check='' @ decimal 1700000000000)),
      Call Launch, Call NewPage, Call (SetViewport 1920 1080),
      Call (Goto (''https://kulp-abc123.fly.dev?_screenshot='' @ decimal 1700000000450))] \<and>
   Call Close \<notin> set (trace (snd (processScreenshotAsync (happy_env\<lparr>goto_ok := False\<rparr>) ''abc123'' idle))) \<and>
   browsers idle = 0 \<and>
   browsers (snd (processScreenshotAsync (happy_env\<lparr>goto_ok := False\<rparr>) ''abc123'' idle)) = 1"
  by (simp add: processScreenshotAsync_def try_block_def catch_block_def try_catch_step
      check_availability_def launch_browser_def new_page_def set_viewport_def navigate_def
      cleanup_after_error_def emit_def console_def Let_def response_ok_def appUrl_def
      happy_env_def idle_def)

text \<open>
  Claim C8 at two distinct requests for project abc123 whose \<^verbatim>\<open>Date.now()\<close> at line 252 is
  the same millisecond: both use one path, the second capture overwrites the file of the
  first, the clean-up of the first request deletes the file the second one wrote, and the
  second request then fails in \<^verbatim>\<open>processAndUploadImage\<close>.
\<close>

theorem same_millisecond_same_artifact_path:
  "happy_env \<noteq> happy_env\<lparr>clock_health := 1700000000007, screenshot_result := ShotSaved [1, 2, 3]\<rparr> \<and>
   artifact_path ''abc123'' (clock_file happy_env) =
   artifact_path ''abc123''
     (clock_file (happy_env\<lparr>clock_health := 1700000000007, screenshot_result := ShotSaved [1, 2, 3]\<rparr>)) \<and>
   files (snd (capture (happy_env\<lparr>clock_health := 1700000000007, screenshot_result := ShotSaved [1, 2, 3]\<rparr>)
                 ''abc123'' (snd (capture happy_env ''abc123'' idle))))
     (artifact_path ''abc123'' 1700000009000) = Some [1, 2, 3] \<and>
   files (snd (cleanup_file happy_env
            (snd (capture (happy_env\<lparr>clock_health := 1700000000007, screenshot_result := ShotSaved [1, 2, 3]\<rparr>)
                 ''abc123'' (snd (capture happy_env ''abc123'' idle))))))
     (artifact_path ''abc123'' 1700000009000) = None \<and>
   fst (process_and_upload
          (happy_env\<lparr>clock_health := 1700000000007, screenshot_result := ShotSaved [1, 2, 3]\<rparr>) ''abc123''
          (snd (cleanup_file happy_env
            (snd (capture (happy_env\<lparr>clock_health := 1700000000007, screenshot_result := ShotSaved [1, 2, 3]\<rparr>)
                 ''abc123'' (snd (capture happy_env ''abc123'' idle)))))))
     = Throw ImageProcessingError"
  by (simp add: capture_def cleanup_file_def unlinkSync_def process_and_upload_def
      processAndUploadImage_def compressImage_def Let_def happy_env_def idle_def)

end
